theory Spec2Isabelle
  imports Complex_Main "HOL-Library.AList" "HOL-Library.Log_Nat"
begin

section \<open>Numbers and products\<close>

text \<open>
  Prices are integer cents: the \<open>products\<close> table of \<open>db/schema.ts\<close> declares
  \<open>list_price\<close>, \<open>low_price\<close> and \<open>high_price\<close> as \<open>integer\<close> columns (the last two
  nullable), and the product routes store \<open>Math.round(price * 100)\<close>. A nullable column
  is an \<open>option\<close>. A level count is an integer as well (\<open>price_levels\<close> is an
  \<open>integer\<close> column; the page parses its input with \<open>parseInt\<close>).

  Intermediate values of the price levels are exact rationals, and each is rounded by
  \<open>Math.round\<close> before it is used. Where the source's double arithmetic is inexact (the
  products with \<open>0.8\<close> and \<open>1.2\<close>, the thirds) the exact value is at least a tenth away
  from a rounding tie, so \<open>Math.round\<close> returns the same integer for every price an
  integer column holds; the halves are exact in the source too.
\<close>

text \<open>\<open>Math.round\<close>: the nearest integer, a tie going up.\<close>

definition Math_round :: "rat \<Rightarrow> int" where
  "Math_round x = \<lfloor>x + 1 / 2\<rfloor>"

text \<open>
  \<open>a || b\<close> on a nullable number: \<open>b\<close> when \<open>a\<close> is \<open>null\<close>, \<open>undefined\<close> or \<open>0\<close>.
\<close>

definition js_or :: "int option \<Rightarrow> int \<Rightarrow> int" where
  "js_or a b = (case a of None \<Rightarrow> b | Some x \<Rightarrow> if x = 0 then b else x)"

text \<open>
  Where a result is reported without being rounded to an integer (a quotient, a product
  with a random number, the arithmetic of the analysis page) the source's value is a
  double: the exact result rounded to the nearest number with a 53-bit significand, a
  tie going to the even significand. For \<open>x > 0\<close>, \<open>binade x\<close> is the exponent \<open>e\<close>
  with \<open>2^e \<le> x < 2^(e+1)\<close>. The range of the exponent is not bounded here: overflow and
  subnormal numbers are out of reach of the prices and counts that occur.
\<close>

definition round_half_even :: "rat \<Rightarrow> int" where
  "round_half_even m =
    (let f = \<lfloor>m\<rfloor>; r = m - of_int f
     in if r < 1 / 2 then f else if r > 1 / 2 then f + 1 else if even f then f else f + 1)"

definition binade :: "rat \<Rightarrow> int" where
  "binade x = (if 1 \<le> x then bitlen \<lfloor>x\<rfloor> - 1 else - bitlen (\<lceil>1 / x\<rceil> - 1))"

definition double_round :: "rat \<Rightarrow> rat" where
  "double_round x =
    (if x = 0 then 0
     else (let ulp = power_int 2 (binade \<bar>x\<bar> - 52);
               n = round_half_even (\<bar>x\<bar> / ulp)
           in if x < 0 then - (of_int n * ulp) else of_int n * ulp))"

text \<open>
  \<open>a / b\<close> and \<open>a + b\<close> on finite doubles, for a divisor that is not zero (a division by
  zero is written out where the source can reach one).
\<close>

definition js_divide :: "rat \<Rightarrow> rat \<Rightarrow> rat" where
  "js_divide a b = double_round (a / b)"

definition js_plus :: "rat \<Rightarrow> rat \<Rightarrow> rat" where
  "js_plus a b = double_round (a + b)"

text \<open>
  The fields of \<open>Product\<close> (\<open>server/routes/survey.ts\<close>) that the survey logic reads; the
  descriptive fields (brand, name, description, images) are carried along unchanged.
  \<open>id_of\<close> is the field \<open>id\<close>.
\<close>

record product =
  id_of :: int
  listPrice :: int
  lowPrice :: "int option"
  highPrice :: "int option"

section \<open>Price levels\<close>

text \<open>\<open>generatePriceMatrix\<close> of \<open>server/routes/survey.ts\<close>.\<close>

definition generatePriceMatrix :: "product \<Rightarrow> int \<Rightarrow> int list" where
  "generatePriceMatrix product priceLevels =
    (let lowPrice' = js_or (lowPrice product) (Math_round (of_int (listPrice product) * (8 / 10)));
         highPrice' = js_or (highPrice product) (Math_round (of_int (listPrice product) * (12 / 10)));
         listPrice' = listPrice product
     in if priceLevels = 2 then [lowPrice', highPrice']
        else if priceLevels = 3 then [lowPrice', listPrice', highPrice']
        else if priceLevels = 4 then
          (let quarterPoint = Math_round (of_int lowPrice' + of_int (listPrice' - lowPrice') / 2);
               threeQuarterPoint = Math_round (of_int listPrice' + of_int (highPrice' - listPrice') / 2)
           in [lowPrice', quarterPoint, threeQuarterPoint, highPrice'])
        else if priceLevels = 5 then
          (let p1 = Math_round (of_int lowPrice' + of_int (listPrice' - lowPrice') / 3);
               p2 = Math_round (of_int lowPrice' + of_int (2 * (listPrice' - lowPrice')) / 3);
               p3 = Math_round (of_int listPrice' + of_int (highPrice' - listPrice') / 3);
               p4 = Math_round (of_int listPrice' + of_int (2 * (highPrice' - listPrice')) / 3)
           in [lowPrice', p1, p2, p3, p4, highPrice'])
        else [lowPrice', listPrice', highPrice'])"

text \<open>
  \<open>generatePriceLevels\<close> of \<open>client/src/pages/conjoint-configuration.tsx\<close>, on the
  product shape of \<open>ShelfData\<close> (the same price fields).
\<close>

definition generatePriceLevels :: "product \<Rightarrow> int \<Rightarrow> int list" where
  "generatePriceLevels product levels =
    (let lowPrice' = js_or (lowPrice product) (Math_round (of_int (listPrice product) * (8 / 10)));
         highPrice' = js_or (highPrice product) (Math_round (of_int (listPrice product) * (12 / 10)));
         listPrice' = listPrice product
     in if levels = 2 then [lowPrice', highPrice']
        else if levels = 3 then [lowPrice', listPrice', highPrice']
        else if levels = 4 then
          (let quarterPoint = Math_round (of_int lowPrice' + of_int (listPrice' - lowPrice') / 2);
               threeQuarterPoint = Math_round (of_int listPrice' + of_int (highPrice' - listPrice') / 2)
           in [lowPrice', quarterPoint, threeQuarterPoint, highPrice'])
        else if levels = 5 then
          (let p1 = Math_round (of_int lowPrice' + of_int (listPrice' - lowPrice') / 3);
               p2 = Math_round (of_int lowPrice' + of_int (2 * (listPrice' - lowPrice')) / 3);
               p3 = Math_round (of_int listPrice' + of_int (highPrice' - listPrice') / 3);
               p4 = Math_round (of_int listPrice' + of_int (2 * (highPrice' - listPrice')) / 3)
           in [lowPrice', p1, p2, p3, p4, highPrice'])
        else [lowPrice', listPrice', highPrice'])"

text \<open>
  The low and high price after the fallbacks of the first two lines of
  \<open>generatePriceMatrix\<close>.
\<close>

definition effectiveLow :: "product \<Rightarrow> int" where
  "effectiveLow product = js_or (lowPrice product) (Math_round (of_int (listPrice product) * (8 / 10)))"

definition effectiveHigh :: "product \<Rightarrow> int" where
  "effectiveHigh product = js_or (highPrice product) (Math_round (of_int (listPrice product) * (12 / 10)))"

section \<open>The conjoint matrix\<close>

text \<open>
  An entry of a combination is a product together with the price it is offered at: the
  object \<open>{...product, currentPrice: price}\<close>.
\<close>

type_synonym offer = "product \<times> int"

definition offer_id :: "offer \<Rightarrow> int" where
  "offer_id p = id_of (fst p)"

definition currentPrice :: "offer \<Rightarrow> int" where
  "currentPrice p = snd p"

text \<open>
  The inner function \<open>generateCombinations(current, index)\<close> of \<open>generateConjointMatrix\<close>.
  Its first argument here is \<open>productPrices\<close> from position \<open>index\<close> on, so that
  \<open>index === productPrices.length\<close> is the empty list; the result is what the call pushes
  onto \<open>combinations\<close>, in order.
\<close>

fun generateCombinations :: "(product \<times> int list) list \<Rightarrow> offer list \<Rightarrow> offer list list" where
  "generateCombinations [] current = [current]"
| "generateCombinations ((product, prices) # rest) current =
     concat (map (\<lambda>price. generateCombinations rest (current @ [(product, price)])) prices)"

definition generateConjointMatrix :: "product list \<Rightarrow> int \<Rightarrow> offer list list" where
  "generateConjointMatrix products priceLevels =
     (let productPrices = map (\<lambda>product. (product, generatePriceMatrix product priceLevels)) products
      in generateCombinations productPrices [])"

section \<open>Saving a conjoint configuration\<close>

text \<open>
  The value of \<open>req.body.priceLevels\<close>, as the JSON body parser can produce it: absent
  (\<open>undefined\<close>), \<open>null\<close>, a boolean, a number, a string, or an array or object.
\<close>

datatype jsval = JUndefined | JNull | JBool bool | JNumber rat | JString string | JObject

text \<open>\<open>!v\<close>\<close>

fun falsy :: "jsval \<Rightarrow> bool" where
  "falsy JUndefined = True"
| "falsy JNull = True"
| "falsy (JBool b) = (\<not> b)"
| "falsy (JNumber x) = (x = 0)"
| "falsy (JString s) = (s = [])"
| "falsy JObject = False"

text \<open>
  The validation
  \<open>!priceLevels || typeof priceLevels !== 'number' || priceLevels < 2 || priceLevels > 5\<close>;
  the comparisons are reached for a number only.
\<close>

fun invalidPriceLevels :: "jsval \<Rightarrow> bool" where
  "invalidPriceLevels (JNumber x) = (falsy (JNumber x) \<or> x < 2 \<or> x > 5)"
| "invalidPriceLevels v = True"

text \<open>
  A shelf with its products, a row of \<open>conjoint_configurations\<close> as the route hands it to
  \<open>insert\<close> (\<open>id\<close> and \<open>createdAt\<close> are filled in by the database), and the database:
  its shelves, the configuration rows, whether its calls answer at all (a call that
  throws is caught by the route's \<open>try\<close>), and which rows the table accepts (its columns
  are \<open>integer\<close>).
\<close>

record shelf =
  shelf_id :: int
  shelf_products :: "product list"

record configuration =
  cfg_shelfId :: int
  cfg_priceLevels :: rat
  combinationCount :: rat
  estimatedDuration :: rat
  createdBy :: int

record database =
  shelves :: "shelf list"
  conjointConfigurations :: "configuration list"
  answers :: bool
  accepts :: "configuration \<Rightarrow> bool"

record request =
  userId :: "int option"
  shelf_param :: int
  priceLevels_body :: jsval

text \<open>The query \<open>db.query.shelves.findFirst\<close> by shelf id.\<close>

definition findShelf :: "database \<Rightarrow> int \<Rightarrow> shelf option" where
  "findShelf db i = find (\<lambda>s. shelf_id s = i) (shelves db)"

text \<open>
  The route \<open>POST /api/shelves/:id/conjoint-configuration\<close>: the status of the response
  and the database afterwards. \<open>userId\<close> is \<open>req.user?.id\<close>; \<open>!userId\<close> holds when it is
  absent or \<open>0\<close>.
\<close>

definition postConjointConfiguration :: "request \<Rightarrow> database \<Rightarrow> nat \<times> database" where
  "postConjointConfiguration req db =
    (case userId req of
       None \<Rightarrow> (401, db)
     | Some uid \<Rightarrow>
        if uid = 0 then (401, db)
        else if invalidPriceLevels (priceLevels_body req) then (400, db)
        else (case priceLevels_body req of
           JNumber priceLevels \<Rightarrow>
             if \<not> answers db then (500, db)
             else (case findShelf db (shelf_param req) of
                None \<Rightarrow> (404, db)
              | Some shelf \<Rightarrow>
                 if length (shelf_products shelf) = 0 then (400, db)
                 else
                  (let combinationCount' = priceLevels ^ length (shelf_products shelf);
                       estimatedDuration' = combinationCount' * 30;
                       config = \<lparr>cfg_shelfId = shelf_param req, cfg_priceLevels = priceLevels,
                                 combinationCount = combinationCount',
                                 estimatedDuration = estimatedDuration', createdBy = uid\<rparr>
                   in if accepts db config
                      then (200, db\<lparr>conjointConfigurations := conjointConfigurations db @ [config]\<rparr>)
                      else (500, db)))
         | _ \<Rightarrow> (400, db)))"

section \<open>The combinations of a survey\<close>



record combination =
  comb_id :: nat
  options :: "offer option list"



section \<open>Reading a preference from the model's answer\<close>

text \<open>
  What the chat completion call gives: it throws, or it returns the content of the
  first message, which may be \<open>null\<close>.
\<close>

datatype completion = ApiError | Content "string option"

definition is_digit :: "char \<Rightarrow> bool" where
  "is_digit c = (c \<in> set ''0123456789'')"

text \<open>\<open>response.match(/\d+/)\<close>: the first maximal run of digits, if there is a digit.\<close>

definition match_digits :: "string \<Rightarrow> string option" where
  "match_digits response =
    (let rest = dropWhile (\<lambda>c. \<not> is_digit c) response
     in if rest = [] then None else Some (takeWhile is_digit rest))"

text \<open>
  \<open>parseInt(digits, 10)\<close> on a run of digits. (Past \<open>2^53\<close> the source's number is only
  near this value; it is then far above any list length all the same.)
\<close>

definition parseInt :: "string \<Rightarrow> int" where
  "parseInt ds = foldl (\<lambda>a c. 10 * a + (int (of_char c) - 48)) 0 ds"

text \<open>
  The position the answer selects, as both parsers compute it: \<open>None\<close> where they
  return \<open>null\<close>.
\<close>

definition selectedIndex :: "completion \<Rightarrow> nat \<Rightarrow> nat option" where
  "selectedIndex c n =
    (case c of
       ApiError \<Rightarrow> None
     | Content None \<Rightarrow> None
     | Content (Some response) \<Rightarrow>
        if response = [] then None
        else (case match_digits response of
           None \<Rightarrow> None
         | Some m \<Rightarrow>
            (let selectedIndex' = parseInt m - 1
             in if selectedIndex' < 0 \<or> selectedIndex' \<ge> int n then None
                else Some (nat selectedIndex'))))"

text \<open>
  \<open>getPersonaPreference\<close> (\<open>server/routes/survey.ts\<close>) and
  \<open>getSimulatedConsumerPreference\<close> (\<open>server/utils/simulate-utils.ts\<close>), given what the
  completion call gave. The persona and the prompt only reach the model.
\<close>

definition getPersonaPreference :: "completion \<Rightarrow> offer list \<Rightarrow> int option" where
  "getPersonaPreference c products =
    (case c of
       ApiError \<Rightarrow> None
     | Content None \<Rightarrow> None
     | Content (Some response) \<Rightarrow>
        if response = [] then None
        else (case match_digits response of
           None \<Rightarrow> None
         | Some m \<Rightarrow>
            (let selectedIndex' = parseInt m - 1
             in if selectedIndex' < 0 \<or> selectedIndex' \<ge> int (length products) then None
                else Some (offer_id (products ! nat selectedIndex')))))"

definition getSimulatedConsumerPreference :: "completion \<Rightarrow> offer list \<Rightarrow> int option" where
  "getSimulatedConsumerPreference c products =
    (case c of
       ApiError \<Rightarrow> None
     | Content None \<Rightarrow> None
     | Content (Some response) \<Rightarrow>
        if response = [] then None
        else (case match_digits response of
           None \<Rightarrow> None
         | Some m \<Rightarrow>
            (let selectedIndex' = parseInt m - 1
             in if selectedIndex' < 0 \<or> selectedIndex' \<ge> int (length products) then None
                else Some (offer_id (products ! nat selectedIndex')))))"

section \<open>A simulated survey run\<close>

text \<open>
  \<open>POST /api/shelves/:id/run-survey\<close>, from the conjoint matrix on. \<open>simulationResults\<close>
  is a \<open>Record\<close> from product id to the number of selections and the prices selected
  at: an association list, one entry per key. Reading a field of a missing key throws a
  \<open>TypeError\<close>, which the route's \<open>try\<close> turns into status 500: that is \<open>None\<close> here.
  The rows the route inserts into \<open>respondents\<close> and \<open>responses\<close> do not enter the
  reported numbers; the run modelled is one whose database calls succeed (one that
  throws ends in status 500 and reports nothing).
\<close>

type_synonym simulationResults = "(int \<times> (nat \<times> int list)) list"

definition initResults :: "product list \<Rightarrow> simulationResults" where
  "initResults productsData = fold (\<lambda>p sim. AList.update (id_of p) (0, []) sim) productsData []"

text \<open>
  The body of the inner loop after \<open>getPersonaPreference\<close> has answered:
  \<open>if (selectedProductId)\<close> fails for \<open>null\<close> and for \<open>0\<close>; \<open>combination.find\<close> takes the
  first entry with that id.
\<close>

definition recordSelection ::
  "simulationResults \<Rightarrow> offer list \<Rightarrow> int option \<Rightarrow> simulationResults option" where
  "recordSelection sim combination selectedProductId =
    (case selectedProductId of
       None \<Rightarrow> Some sim
     | Some pid \<Rightarrow>
        if pid = 0 then Some sim
        else (case find (\<lambda>p. offer_id p = pid) combination of
           None \<Rightarrow> Some sim
         | Some selectedProduct \<Rightarrow>
            (case map_of sim pid of
               None \<Rightarrow> None
             | Some result \<Rightarrow>
                Some (AList.update pid (fst result + 1, snd result @ [currentPrice selectedProduct]) sim))))"

text \<open>
  The two loops. \<open>reply i j\<close> is what the completion call gives for the persona at
  position \<open>i\<close> and the combination at position \<open>j\<close>.
\<close>

fun processCombinations ::
  "(nat \<Rightarrow> completion) \<Rightarrow> nat \<Rightarrow> offer list list \<Rightarrow> simulationResults \<Rightarrow> simulationResults option" where
  "processCombinations reply j [] sim = Some sim"
| "processCombinations reply j (combination # rest) sim =
     (case recordSelection sim combination (getPersonaPreference (reply j) combination) of
        None \<Rightarrow> None
      | Some sim' \<Rightarrow> processCombinations reply (Suc j) rest sim')"

fun processPersonas ::
  "(nat \<Rightarrow> nat \<Rightarrow> completion) \<Rightarrow> nat \<Rightarrow> 'persona list \<Rightarrow> offer list list \<Rightarrow> simulationResults
     \<Rightarrow> simulationResults option" where
  "processPersonas reply i [] conjointMatrix sim = Some sim"
| "processPersonas reply i (persona # rest) conjointMatrix sim =
     (case processCombinations (reply i) 0 conjointMatrix sim of
        None \<Rightarrow> None
      | Some sim' \<Rightarrow> processPersonas reply (Suc i) rest conjointMatrix sim')"

definition simulate ::
  "product list \<Rightarrow> int option \<Rightarrow> 'persona list \<Rightarrow> (nat \<Rightarrow> nat \<Rightarrow> completion) \<Rightarrow> simulationResults option" where
  "simulate productsData configured personas reply =
    (let priceLevels = js_or configured 3;
         conjointMatrix = generateConjointMatrix productsData priceLevels
     in processPersonas reply 0 personas conjointMatrix (initResults productsData))"

text \<open>
  The entry of one product in the response. The sum of the prices and the counts are
  integers, exact in a double; each division gives a double. The divisors are not zero
  where the route divides: a length that was tested, a total that was tested, the
  number of the products being mapped over, and 100.
\<close>

record product_result =
  optimalPrice :: rat
  preferenceShare :: rat

definition totalSelections :: "simulationResults \<Rightarrow> nat" where
  "totalSelections sim = sum_list (map (\<lambda>result. fst (snd result)) sim)"

definition productResult :: "product list \<Rightarrow> simulationResults \<Rightarrow> product \<Rightarrow> product_result option" where
  "productResult productsData sim product =
    (case map_of sim (id_of product) of
       None \<Rightarrow> None
     | Some result \<Rightarrow>
        (let prices = snd result;
             optimalPrice' =
               (if length prices > 0
                then js_divide (of_int (sum_list prices)) (of_nat (length prices))
                else of_int (listPrice product))
         in Some \<lparr>optimalPrice = js_divide optimalPrice' 100,
                  preferenceShare =
                    (if totalSelections sim > 0
                     then js_divide (of_nat (fst result)) (of_nat (totalSelections sim))
                     else js_divide 1 (of_nat (length productsData)))\<rparr>))"

definition runSurvey ::
  "product list \<Rightarrow> int option \<Rightarrow> 'persona list \<Rightarrow> (nat \<Rightarrow> nat \<Rightarrow> completion) \<Rightarrow> product_result list option" where
  "runSurvey productsData configured personas reply =
    (case simulate productsData configured personas reply of
       None \<Rightarrow> None
     | Some sim \<Rightarrow> those (map (productResult productsData sim) productsData))"

text \<open>
  The price at which the product with id \<open>pid\<close> is selected by one answer to one
  combination: the price of the entry that the answer selects, when that entry is this
  product, and nothing otherwise.
\<close>

definition selectedAt :: "completion \<Rightarrow> offer list \<Rightarrow> int \<Rightarrow> int list" where
  "selectedAt c combination pid =
    (case selectedIndex c (length combination) of
       None \<Rightarrow> []
     | Some k \<Rightarrow>
        if offer_id (combination ! k) = pid then [currentPrice (combination ! k)] else [])"

text \<open>
  The prices at which the product with id \<open>pid\<close> was selected in a run: those of every
  persona and every combination, in the order of the loops.
\<close>

definition selectedPrices ::
  "product list \<Rightarrow> int option \<Rightarrow> nat \<Rightarrow> (nat \<Rightarrow> nat \<Rightarrow> completion) \<Rightarrow> int \<Rightarrow> int list" where
  "selectedPrices productsData configured numPersonas reply pid =
    (let conjointMatrix = generateConjointMatrix productsData (js_or configured 3)
     in concat (map (\<lambda>i. concat (map (\<lambda>j. selectedAt (reply i j) (conjointMatrix ! j) pid)
                                  [0 ..< length conjointMatrix]))
          [0 ..< numPersonas]))"

section \<open>Elasticity on the analysis page\<close>

text \<open>
  The values a division can produce in the source: a finite number, an infinity or
  \<open>NaN\<close>. A finite result of an operation is rounded to a double; the sign of a zero
  is not kept (the one result that depends on it is an infinity whose absolute value is
  taken).
\<close>

datatype jsnum = Fin rat | PosInf | NegInf | NaN

fun js_neg :: "jsnum \<Rightarrow> jsnum" where
  "js_neg (Fin a) = Fin (- a)"
| "js_neg PosInf = NegInf"
| "js_neg NegInf = PosInf"
| "js_neg NaN = NaN"

fun js_add :: "jsnum \<Rightarrow> jsnum \<Rightarrow> jsnum" where
  "js_add NaN b = NaN"
| "js_add a NaN = NaN"
| "js_add (Fin a) (Fin b) = Fin (double_round (a + b))"
| "js_add PosInf NegInf = NaN"
| "js_add NegInf PosInf = NaN"
| "js_add PosInf b = PosInf"
| "js_add NegInf b = NegInf"
| "js_add (Fin a) b = b"

definition js_sub :: "jsnum \<Rightarrow> jsnum \<Rightarrow> jsnum" where
  "js_sub a b = js_add a (js_neg b)"

text \<open>The sign of a number that is not \<open>NaN\<close>: -1, 0 or 1.\<close>

fun js_sign :: "jsnum \<Rightarrow> int" where
  "js_sign (Fin a) = (if a < 0 then - 1 else if a = 0 then 0 else 1)"
| "js_sign PosInf = 1"
| "js_sign NegInf = - 1"
| "js_sign NaN = 0"

definition signed_inf :: "int \<Rightarrow> jsnum" where
  "signed_inf s = (if s < 0 then NegInf else PosInf)"

fun js_mul :: "jsnum \<Rightarrow> jsnum \<Rightarrow> jsnum" where
  "js_mul NaN b = NaN"
| "js_mul a NaN = NaN"
| "js_mul (Fin a) (Fin b) = Fin (double_round (a * b))"
| "js_mul a b = (if js_sign a * js_sign b = 0 then NaN else signed_inf (js_sign a * js_sign b))"

fun js_div :: "jsnum \<Rightarrow> jsnum \<Rightarrow> jsnum" where
  "js_div NaN b = NaN"
| "js_div a NaN = NaN"
| "js_div (Fin a) (Fin b) =
     (if b = 0 then (if a = 0 then NaN else signed_inf (js_sign (Fin a)))
      else Fin (double_round (a / b)))"
| "js_div (Fin a) b = Fin 0"
| "js_div a (Fin b) = (if b < 0 then js_neg a else a)"
| "js_div a b = NaN"

fun js_gt :: "jsnum \<Rightarrow> jsnum \<Rightarrow> bool" where
  "js_gt NaN b = False"
| "js_gt a NaN = False"
| "js_gt (Fin a) (Fin b) = (a > b)"
| "js_gt PosInf PosInf = False"
| "js_gt PosInf b = True"
| "js_gt NegInf b = False"
| "js_gt (Fin a) PosInf = False"
| "js_gt (Fin a) NegInf = True"

fun js_eq :: "jsnum \<Rightarrow> jsnum \<Rightarrow> bool" where
  "js_eq NaN b = False"
| "js_eq a NaN = False"
| "js_eq a b = (a = b)"

fun js_abs :: "jsnum \<Rightarrow> jsnum" where
  "js_abs (Fin a) = Fin \<bar>a\<bar>"
| "js_abs PosInf = PosInf"
| "js_abs NegInf = PosInf"
| "js_abs NaN = NaN"

fun js_round :: "jsnum \<Rightarrow> jsnum" where
  "js_round (Fin a) = Fin (of_int (Math_round a))"
| "js_round a = a"

text \<open>
  \<open>ProductAnalysis\<close> and \<open>AnalysisData\<close> of \<open>client/src/pages/analysis.tsx\<close>:
  \<open>pa_responses\<close> is \<open>Object.values(product.responses)\<close>, the counts per respondent
  type; the other fields of a product keep their names behind \<open>pa_\<close>.
\<close>

record productAnalysis =
  pa_responses :: "nat list"
  pa_listPrice :: int
  pa_lowPrice :: "int option"
  pa_highPrice :: "int option"

record analysisData =
  totalResponses :: nat

definition calculateOptimalPrice :: "analysisData option \<Rightarrow> productAnalysis \<Rightarrow> jsnum" where
  "calculateOptimalPrice analysis product =
    (case analysis of
       None \<Rightarrow> Fin (of_int (pa_listPrice product))
     | Some a \<Rightarrow>
        (let totalResponses' = sum_list (pa_responses product)
         in if totalResponses' = 0 then Fin (of_int (pa_listPrice product))
            else
             (let responseProportion = js_div (Fin (of_nat totalResponses')) (Fin (of_nat (totalResponses a)));
                  basePrice = pa_listPrice product;
                  lowPrice' = js_or (pa_lowPrice product) (Math_round (of_int basePrice * (8 / 10)));
                  highPrice' = js_or (pa_highPrice product) (Math_round (of_int basePrice * (12 / 10)))
              in js_add (Fin (of_int basePrice))
                   (if js_gt responseProportion (Fin (1 / 2))
                    then js_round (js_mul (js_mul (Fin (of_int (highPrice' - basePrice)))
                                             (js_sub responseProportion (Fin (1 / 2)))) (Fin 2))
                    else js_round (js_mul (Fin (of_int (lowPrice' - basePrice)))
                                     (js_sub (Fin 1) (js_mul responseProportion (Fin 2))))))))"

definition calculatePriceElasticity :: "analysisData option \<Rightarrow> productAnalysis \<Rightarrow> jsnum" where
  "calculatePriceElasticity analysis product =
    (case analysis of
       None \<Rightarrow> Fin 0
     | Some a \<Rightarrow>
        (let totalResponses' = sum_list (pa_responses product);
             marketShare = js_div (Fin (of_nat totalResponses')) (Fin (of_nat (totalResponses a)));
             optimalPrice' = calculateOptimalPrice analysis product;
             priceChange = js_div (js_sub optimalPrice' (Fin (of_int (pa_listPrice product))))
                             (Fin (of_int (pa_listPrice product)));
             quantityChange = js_div (js_sub marketShare (Fin (1 / 2))) (Fin (1 / 2))
         in if js_eq priceChange (Fin 0) then Fin 0
            else js_abs (js_div quantityChange priceChange)))"

section \<open>Auxiliary definitions\<close>

text \<open>
  The entry of a product in \<open>simulationResults\<close> after the selections at the prices
  \<open>xs\<close> have been recorded on top of \<open>result\<close>.
\<close>

definition extend :: "int list \<Rightarrow> nat \<times> int list \<Rightarrow> nat \<times> int list" where
  "extend xs result = (fst result + length xs, snd result @ xs)"

text \<open>
  Example data: two products, a product with the id 0 (no stored product has it: ids are
  serial keys), and shelves of six and of seven products.
\<close>

definition product1 :: product where
  "product1 = \<lparr>id_of = 1, listPrice = 1000, lowPrice = None, highPrice = None\<rparr>"

definition product2 :: product where
  "product2 = \<lparr>id_of = 2, listPrice = 500, lowPrice = Some 400, highPrice = Some 700\<rparr>"

definition product0 :: product where
  "product0 = \<lparr>id_of = 0, listPrice = 1000, lowPrice = None, highPrice = None\<rparr>"

definition sixProducts :: "product list" where
  "sixProducts =
     map (\<lambda>i. \<lparr>id_of = i, listPrice = 1000, lowPrice = None, highPrice = None\<rparr>) [1, 2, 3, 4, 5, 6]"


text \<open>
  Example answers: the model names product 1 for the first combination and product 2
  for every other one; a model that answers the second combination only; and one that
  answers the first combination only.
\<close>

definition reply12 :: "nat \<Rightarrow> nat \<Rightarrow> completion" where
  "reply12 i j = Content (Some (if j = 0 then ''1'' else ''Product 2''))"

definition replySecondOnly :: "nat \<Rightarrow> nat \<Rightarrow> completion" where
  "replySecondOnly i j = (if j = 1 then Content (Some ''2'') else Content None)"

definition replyFirstOnly :: "nat \<Rightarrow> nat \<Rightarrow> completion" where
  "replyFirstOnly i j = (if j = 0 then Content (Some ''1'') else Content None)"

text \<open>Example database: one shelf, number 7, holding the first example product.\<close>

definition database1 :: database where
  "database1 = \<lparr>shelves = [\<lparr>shelf_id = 7, shelf_products = [product1]\<rparr>],
                 conjointConfigurations = [], answers = True, accepts = (\<lambda>c. True)\<rparr>"

section \<open>Facts about rounding\<close>

lemma Math_round_ge: "of_int a \<le> x \<Longrightarrow> a \<le> Math_round x"
  unfolding Math_round_def by (simp add: le_floor_iff)

lemma Math_round_le: "x \<le> of_int b \<Longrightarrow> Math_round x \<le> b"
  unfolding Math_round_def by (simp add: floor_le_iff)

lemma Math_round_mono: "x \<le> y \<Longrightarrow> Math_round x \<le> Math_round y"
  unfolding Math_round_def by (simp add: floor_mono)

lemma half_between:
  assumes "(a::int) \<le> b"
  shows "a \<le> Math_round (of_int a + of_int (b - a) / 2)"
    and "Math_round (of_int a + of_int (b - a) / 2) \<le> b"
proof -
  define x y :: rat where "x = of_int a" and "y = of_int b"
  have r: "x \<le> y" using assms by (simp add: x_def y_def)
  have d: "of_int (b - a) = y - x" by (simp add: x_def y_def)
  have "x \<le> x + (y - x) / 2" using r by simp
  then show "a \<le> Math_round (of_int a + of_int (b - a) / 2)"
    unfolding d unfolding x_def by (rule Math_round_ge)
  have "x + (y - x) / 2 \<le> y" using r by (simp add: field_simps)
  then show "Math_round (of_int a + of_int (b - a) / 2) \<le> b"
    unfolding d unfolding x_def y_def by (rule Math_round_le)
qed

lemma third_between:
  assumes "(a::int) \<le> b"
  shows "a \<le> Math_round (of_int a + of_int (b - a) / 3)"
    and "Math_round (of_int a + of_int (2 * (b - a)) / 3) \<le> b"
    and "Math_round (of_int a + of_int (b - a) / 3)
           \<le> Math_round (of_int a + of_int (2 * (b - a)) / 3)"
proof -
  define x y :: rat where "x = of_int a" and "y = of_int b"
  have r: "x \<le> y" using assms by (simp add: x_def y_def)
  have d: "of_int (b - a) = y - x" "of_int (2 * (b - a)) = 2 * (y - x)"
    by (simp_all add: x_def y_def)
  have "x \<le> x + (y - x) / 3" using r by simp
  then show "a \<le> Math_round (of_int a + of_int (b - a) / 3)"
    unfolding d unfolding x_def by (rule Math_round_ge)
  have "x + 2 * (y - x) / 3 \<le> y" using r by (simp add: field_simps)
  then show "Math_round (of_int a + of_int (2 * (b - a)) / 3) \<le> b"
    unfolding d unfolding x_def y_def by (rule Math_round_le)
  have "x + (y - x) / 3 \<le> x + 2 * (y - x) / 3" using r by (simp add: field_simps)
  then show "Math_round (of_int a + of_int (b - a) / 3)
               \<le> Math_round (of_int a + of_int (2 * (b - a)) / 3)"
    unfolding d unfolding x_def y_def by (rule Math_round_mono)
qed

section \<open>Facts about doubles\<close>

lemma round_half_even_error: "\<bar>of_int (round_half_even m) - m\<bar> \<le> 1 / 2"
proof -
  define r where "r = m - of_int \<lfloor>m\<rfloor>"
  have r: "0 \<le> r" "r < 1" unfolding r_def by linarith+
  have m: "m = of_int \<lfloor>m\<rfloor> + r" by (simp add: r_def)
  have "round_half_even m = \<lfloor>m\<rfloor> \<and> r \<le> 1 / 2 \<or> round_half_even m = \<lfloor>m\<rfloor> + 1 \<and> 1 / 2 \<le> r"
  proof -
    have "round_half_even m =
        (if r < 1 / 2 then \<lfloor>m\<rfloor> else if r > 1 / 2 then \<lfloor>m\<rfloor> + 1
         else if even \<lfloor>m\<rfloor> then \<lfloor>m\<rfloor> else \<lfloor>m\<rfloor> + 1)"
      unfolding round_half_even_def Let_def r_def ..
    then show ?thesis by (auto split: if_splits)
  qed
  then show ?thesis
  proof
    assume a: "round_half_even m = \<lfloor>m\<rfloor> \<and> r \<le> 1 / 2"
    then have "of_int (round_half_even m) - m = - r" by (simp add: r_def)
    then show ?thesis using a r by simp
  next
    assume a: "round_half_even m = \<lfloor>m\<rfloor> + 1 \<and> 1 / 2 \<le> r"
    then have "of_int (round_half_even m) - m = 1 - r" by (simp add: r_def)
    then show ?thesis using a r by simp
  qed
qed

lemma binade_lower:
  assumes "0 < x"
  shows "power_int 2 (binade x) \<le> x"
proof (cases "1 \<le> x")
  case True
  then have f: "0 < \<lfloor>x\<rfloor>" by simp
  from bitlen_bounds[OF f] have b: "2 ^ nat (bitlen \<lfloor>x\<rfloor> - 1) \<le> \<lfloor>x\<rfloor>" by simp
  have "1 \<le> bitlen \<lfloor>x\<rfloor>" using f bitlen_eq_zero_iff[of "\<lfloor>x\<rfloor>"] bitlen_nonneg[of "\<lfloor>x\<rfloor>"] by linarith
  then have "power_int (2::rat) (binade x) = 2 ^ nat (bitlen \<lfloor>x\<rfloor> - 1)"
    using True by (simp add: binade_def power_int_def)
  also have "\<dots> = of_int (2 ^ nat (bitlen \<lfloor>x\<rfloor> - 1))" by simp
  also have "\<dots> \<le> of_int \<lfloor>x\<rfloor>" using b by (simp only: of_int_le_iff)
  also have "\<dots> \<le> x" by simp
  finally show ?thesis .
next
  case False
  then have x1: "x < 1" by simp
  define c where "c = \<lceil>1 / x\<rceil> - 1"
  have "1 < 1 / x" using assms x1 by (simp add: field_simps)
  then have "1 < \<lceil>1 / x\<rceil>" by (simp add: less_ceiling_iff)
  then have c: "0 < c" by (simp add: c_def)
  from bitlen_bounds[OF c] have "c < 2 ^ nat (bitlen c)" by simp
  then have le: "\<lceil>1 / x\<rceil> \<le> 2 ^ nat (bitlen c)" by (simp add: c_def)
  have "1 / x \<le> of_int \<lceil>1 / x\<rceil>" by (rule le_of_int_ceiling)
  also have "\<dots> \<le> of_int (2 ^ nat (bitlen c))" using le by (simp only: of_int_le_iff)
  also have "\<dots> = 2 ^ nat (bitlen c)" by simp
  finally have "1 / x \<le> 2 ^ nat (bitlen c)" .
  then have "1 / 2 ^ nat (bitlen c) \<le> x" using assms by (simp add: field_simps)
  moreover have "power_int (2::rat) (binade x) = 1 / 2 ^ nat (bitlen c)"
    using False bitlen_nonneg[of c] by (auto simp: binade_def power_int_def c_def field_simps)
  ultimately show ?thesis by simp
qed

lemma double_round_error_pos:
  assumes "0 < x"
  shows "\<bar>double_round x - x\<bar> \<le> x / 2 ^ 53"
proof -
  define ulp :: rat where "ulp = power_int 2 (binade x - 52)"
  define n where "n = round_half_even (x / ulp)"
  have u: "0 < ulp" by (simp add: ulp_def zero_less_power_int)
  have u2: "ulp = power_int 2 (binade x) / 2 ^ 52"
    by (simp add: ulp_def power_int_diff)
  have dr: "double_round x = of_int n * ulp"
    using assms by (simp add: double_round_def Let_def ulp_def n_def)
  have "of_int n * ulp - x = (of_int n - x / ulp) * ulp"
    using u by (simp add: field_simps)
  then have "\<bar>of_int n * ulp - x\<bar> = \<bar>of_int n - x / ulp\<bar> * ulp"
    using u by (simp add: abs_mult)
  also have "\<dots> \<le> (1 / 2) * ulp"
    using round_half_even_error[of "x / ulp"] u unfolding n_def
    by (intro mult_right_mono) simp_all
  also have "\<dots> = power_int 2 (binade x) / 2 ^ 53" by (simp add: u2)
  also have "\<dots> \<le> x / 2 ^ 53"
    using binade_lower[OF assms] by (simp add: divide_right_mono)
  finally show ?thesis by (simp add: dr)
qed

lemma double_round_error:
  assumes "0 \<le> x"
  shows "\<bar>double_round x - x\<bar> \<le> x / 2 ^ 53"
proof (cases "x = 0")
  case True
  then show ?thesis by (simp add: double_round_def)
next
  case False
  with assms have "0 < x" by simp
  then show ?thesis by (rule double_round_error_pos)
qed

lemma double_round_zero [simp]: "double_round 0 = 0"
  by (simp add: double_round_def)

lemma double_round_minus: "double_round (- x) = - double_round x"
  by (simp add: double_round_def Let_def)

lemma double_round_eq_0_iff [simp]: "double_round x = 0 \<longleftrightarrow> x = 0"
proof
  assume z: "double_round x = 0"
  show "x = 0"
  proof (rule ccontr)
    assume nz: "x \<noteq> 0"
    then have pos: "0 < \<bar>x\<bar>" by simp
    have "double_round \<bar>x\<bar> = 0"
      using z double_round_minus[of x] by (simp add: abs_if)
    with double_round_error_pos[OF pos] have "\<bar>x\<bar> \<le> \<bar>x\<bar> / 2 ^ 53" by simp
    with pos show False by (simp add: field_simps)
  qed
qed simp

lemma sum_list_abs_diff:
  "(\<And>x. x \<in> set xs \<Longrightarrow> \<bar>f x - g x\<bar> \<le> (h x :: rat)) \<Longrightarrow>
   \<bar>sum_list (map f xs) - sum_list (map g xs)\<bar> \<le> sum_list (map h xs)"
proof (induction xs)
  case Nil
  then show ?case by simp
next
  case (Cons a xs)
  have "\<bar>f a - g a\<bar> \<le> h a" using Cons.prems by simp
  moreover have "\<bar>sum_list (map f xs) - sum_list (map g xs)\<bar> \<le> sum_list (map h xs)"
    using Cons by simp
  ultimately show ?case by simp
qed

section \<open>The price levels of one product\<close>

lemma length_generatePriceMatrix:
  "length (generatePriceMatrix p n) = (if n = 2 then 2 else if n = 4 then 4 else if n = 5 then 6 else 3)"
  by (simp add: generatePriceMatrix_def Let_def)

text \<open>
  C1. The claim: for 2 \<le> n \<le> 5 both functions return exactly n prices. They do for
  n = 2, 3 and 4. At n = 5 the branch of either function lists the low price, four
  intermediate points and the high price: six prices for every product.
\<close>

theorem five_levels_give_six_prices:
  "length (generatePriceMatrix p 2) = 2 \<and> length (generatePriceMatrix p 3) = 3
   \<and> length (generatePriceMatrix p 4) = 4
   \<and> length (generatePriceMatrix p 5) = 6 \<and> length (generatePriceLevels p 5) = 6"
  by (simp add: generatePriceMatrix_def generatePriceLevels_def Let_def)

text \<open>
  C8. The price preview of the client and the price matrix of the server are the same
  function: on every product, with the low and the high price set or not, and for every
  level count, they return the same list.
\<close>

theorem generatePriceLevels_eq_generatePriceMatrix:
  "generatePriceLevels p n = generatePriceMatrix p n"
  by (simp add: generatePriceMatrix_def generatePriceLevels_def)

text \<open>
  C10. When the low price, after its fallback, is at most the list price and the list
  price at most the high price after its fallback, the list of \<open>generatePriceMatrix\<close>
  is not empty and nondecreasing, its first element is the low price, its last the high
  price, and every element lies between the two.
\<close>

theorem generatePriceMatrix_ordered:
  assumes "effectiveLow p \<le> listPrice p" and "listPrice p \<le> effectiveHigh p"
  shows "generatePriceMatrix p n \<noteq> [] \<and> sorted (generatePriceMatrix p n)
    \<and> hd (generatePriceMatrix p n) = effectiveLow p
    \<and> last (generatePriceMatrix p n) = effectiveHigh p
    \<and> (\<forall>x \<in> set (generatePriceMatrix p n). effectiveLow p \<le> x \<and> x \<le> effectiveHigh p)"
proof -
  define lo li hi where "lo = effectiveLow p" and "li = listPrice p" and "hi = effectiveHigh p"
  note d = lo_def li_def hi_def
  have a: "lo \<le> li" "li \<le> hi" using assms by (simp_all add: d)
  note h1 = half_between[OF a(1)] and h2 = half_between[OF a(2)]
  note t1 = third_between[OF a(1)] and t2 = third_between[OF a(2)]
  have g: "generatePriceMatrix p n =
     (if n = 2 then [lo, hi]
      else if n = 3 then [lo, li, hi]
      else if n = 4 then
        [lo, Math_round (of_int lo + of_int (li - lo) / 2),
         Math_round (of_int li + of_int (hi - li) / 2), hi]
      else if n = 5 then
        [lo, Math_round (of_int lo + of_int (li - lo) / 3),
         Math_round (of_int lo + of_int (2 * (li - lo)) / 3),
         Math_round (of_int li + of_int (hi - li) / 3),
         Math_round (of_int li + of_int (2 * (hi - li)) / 3), hi]
      else [lo, li, hi])"
    unfolding generatePriceMatrix_def d effectiveLow_def effectiveHigh_def Let_def by simp
  show ?thesis unfolding g d[symmetric]
    using a h1 h2 t1 t2 by auto
qed

theorem generatePriceMatrix_ordered_witness:
  "effectiveLow \<lparr>id_of = 1, listPrice = 1000, lowPrice = Some 700, highPrice = None\<rparr> = 700
   \<and> effectiveHigh \<lparr>id_of = 1, listPrice = 1000, lowPrice = Some 700, highPrice = None\<rparr> = 1200
   \<and> sorted (generatePriceMatrix \<lparr>id_of = 1, listPrice = 1000, lowPrice = Some 700, highPrice = None\<rparr> 5)
   \<and> hd (generatePriceMatrix \<lparr>id_of = 1, listPrice = 1000, lowPrice = Some 700, highPrice = None\<rparr> 5) = 700
   \<and> last (generatePriceMatrix \<lparr>id_of = 1, listPrice = 1000, lowPrice = Some 700, highPrice = None\<rparr> 5) = 1200"
proof -
  let ?p = "\<lparr>id_of = 1, listPrice = 1000, lowPrice = Some 700, highPrice = None\<rparr>"
  have lo: "effectiveLow ?p = 700"
    by code_simp
  have hi: "effectiveHigh ?p = 1200"
    by code_simp
  have h1: "effectiveLow ?p \<le> listPrice ?p" by (simp add: lo)
  have h2: "listPrice ?p \<le> effectiveHigh ?p" by (simp add: hi)
  show ?thesis
    using generatePriceMatrix_ordered [OF h1 h2, of 5] lo hi by simp
qed

section \<open>The size of the conjoint matrix\<close>

lemma length_generateCombinations:
  "length (generateCombinations pp current) = prod_list (map (\<lambda>x. length (snd x)) pp)"
proof (induction pp arbitrary: current)
  case Nil
  then show ?case by simp
next
  case (Cons a pp)
  obtain product prices where a: "a = (product, prices)" by (cases a)
  show ?case
    by (simp add: a length_concat comp_def Cons.IH sum_list_triv)
qed

lemma rows_generateCombinations:
  "row \<in> set (generateCombinations pp current) \<Longrightarrow> map fst row = map fst current @ map fst pp"
proof (induction pp arbitrary: current)
  case Nil
  then show ?case by simp
next
  case (Cons a pp)
  obtain product prices where a: "a = (product, prices)" by (cases a)
  from Cons.prems obtain price
    where "row \<in> set (generateCombinations pp (current @ [(product, price)]))"
    by (auto simp: a)
  from Cons.IH[OF this] show ?case by (simp add: a)
qed

lemma length_generateConjointMatrix:
  "length (generateConjointMatrix ps n) =
     (if n = 2 then 2 else if n = 4 then 4 else if n = 5 then 6 else 3) ^ length ps"
  by (simp add: generateConjointMatrix_def length_generateCombinations comp_def
        length_generatePriceMatrix prod_list_replicate[symmetric] map_replicate_const[symmetric]
      del: prod_list_replicate)

lemma rows_generateConjointMatrix:
  "row \<in> set (generateConjointMatrix ps n) \<Longrightarrow> map fst row = ps"
  by (auto simp: generateConjointMatrix_def comp_def dest!: rows_generateCombinations)

lemma row_ids:
  assumes "row \<in> set (generateConjointMatrix ps n)"
  shows "map offer_id row = map id_of ps"
proof -
  from assms have "map fst row = ps" by (rule rows_generateConjointMatrix)
  then have "map id_of (map fst row) = map id_of ps" by simp
  then show ?thesis by (simp add: offer_id_def[abs_def] comp_def)
qed

text \<open>
  C2. The claim: for priceLevels in 2..5 the matrix of \<open>generateConjointMatrix\<close> has as
  many rows as the \<open>combinationCount\<close> the configuration route records, priceLevels to
  the power of the number of products. For a shelf of one product and five levels the
  matrix has six rows and the route records five.
\<close>

theorem five_levels_matrix_exceeds_recorded_count:
  "length (generateConjointMatrix [product1] 5) = 6
   \<and> map combinationCount (conjointConfigurations (snd (postConjointConfiguration
          \<lparr>userId = Some 3, shelf_param = 7, priceLevels_body = JNumber 5\<rparr> database1))) = [5]"
  by (simp add: length_generateConjointMatrix postConjointConfiguration_def findShelf_def
        database1_def Let_def)

section \<open>Saving a configuration: the statuses\<close>

lemma invalidPriceLevels_iff:
  "invalidPriceLevels v \<longleftrightarrow> \<not> (\<exists>x. v = JNumber x \<and> 2 \<le> x \<and> x \<le> 5)"
  by (cases v) auto

text \<open>
  C4, as stated: status 400 exactly when priceLevels is missing, not a number, below 2
  or above 5, or the shelf has no product. A request without a user and without
  priceLevels is answered with 401.
\<close>

theorem missing_priceLevels_unauthorized_counterexample:
  "\<not> (\<exists>x. priceLevels_body \<lparr>userId = None, shelf_param = 7, priceLevels_body = JUndefined\<rparr> = JNumber x)
   \<and> fst (postConjointConfiguration
            \<lparr>userId = None, shelf_param = 7, priceLevels_body = JUndefined\<rparr> database1) = 401"
  by (simp add: postConjointConfiguration_def)

text \<open>
  C4, amended. A request without a user id (absent, or 0) is answered 401 and the
  database is unchanged, whatever priceLevels is. For a request that carries a user id,
  and while the database answers: the status is 400 exactly when priceLevels is not a
  number from 2 to 5 or the shelf exists and has no product, and then the database is
  unchanged; it is 404, with the database unchanged, when priceLevels is such a number
  and the shelf does not exist; it is 200 exactly when priceLevels is such a number, the
  shelf exists with a product and the table accepts the row; and on 200 the one row
  appended has \<open>combinationCount = priceLevels ^ (number of products)\<close> and
  \<open>estimatedDuration = 30 * combinationCount\<close>.
\<close>

theorem postConjointConfiguration_statuses:
  "(userId req = None \<or> userId req = Some 0 \<longrightarrow> postConjointConfiguration req db = (401, db))
   \<and> (\<forall>uid. userId req = Some uid \<and> uid \<noteq> 0 \<and> answers db \<longrightarrow>
       (fst (postConjointConfiguration req db) = 400 \<longleftrightarrow>
            \<not> (\<exists>x. priceLevels_body req = JNumber x \<and> 2 \<le> x \<and> x \<le> 5)
            \<or> (\<exists>s. findShelf db (shelf_param req) = Some s \<and> shelf_products s = []))
     \<and> (fst (postConjointConfiguration req db) = 400 \<longrightarrow> snd (postConjointConfiguration req db) = db)
     \<and> ((\<exists>x. priceLevels_body req = JNumber x \<and> 2 \<le> x \<and> x \<le> 5)
            \<and> findShelf db (shelf_param req) = None
          \<longrightarrow> fst (postConjointConfiguration req db) = 404 \<and> snd (postConjointConfiguration req db) = db)
     \<and> (fst (postConjointConfiguration req db) = 200 \<longleftrightarrow>
           (\<exists>x s. priceLevels_body req = JNumber x \<and> 2 \<le> x \<and> x \<le> 5
              \<and> findShelf db (shelf_param req) = Some s \<and> shelf_products s \<noteq> []
              \<and> accepts db \<lparr>cfg_shelfId = shelf_param req, cfg_priceLevels = x,
                    combinationCount = x ^ length (shelf_products s),
                    estimatedDuration = 30 * x ^ length (shelf_products s), createdBy = uid\<rparr>))
     \<and> (fst (postConjointConfiguration req db) = 200 \<longrightarrow>
           (\<exists>x s. priceLevels_body req = JNumber x \<and> findShelf db (shelf_param req) = Some s
              \<and> snd (postConjointConfiguration req db) =
                  db\<lparr>conjointConfigurations := conjointConfigurations db @
                   [\<lparr>cfg_shelfId = shelf_param req, cfg_priceLevels = x,
                     combinationCount = x ^ length (shelf_products s),
                     estimatedDuration = 30 * x ^ length (shelf_products s), createdBy = uid\<rparr>]\<rparr>)))"
proof (rule conjI)
  show "userId req = None \<or> userId req = Some 0 \<longrightarrow> postConjointConfiguration req db = (401, db)"
    by (auto simp: postConjointConfiguration_def)
next
  show "\<forall>uid. userId req = Some uid \<and> uid \<noteq> 0 \<and> answers db \<longrightarrow>
       (fst (postConjointConfiguration req db) = 400 \<longleftrightarrow>
            \<not> (\<exists>x. priceLevels_body req = JNumber x \<and> 2 \<le> x \<and> x \<le> 5)
            \<or> (\<exists>s. findShelf db (shelf_param req) = Some s \<and> shelf_products s = []))
     \<and> (fst (postConjointConfiguration req db) = 400 \<longrightarrow> snd (postConjointConfiguration req db) = db)
     \<and> ((\<exists>x. priceLevels_body req = JNumber x \<and> 2 \<le> x \<and> x \<le> 5)
            \<and> findShelf db (shelf_param req) = None
          \<longrightarrow> fst (postConjointConfiguration req db) = 404 \<and> snd (postConjointConfiguration req db) = db)
     \<and> (fst (postConjointConfiguration req db) = 200 \<longleftrightarrow>
           (\<exists>x s. priceLevels_body req = JNumber x \<and> 2 \<le> x \<and> x \<le> 5
              \<and> findShelf db (shelf_param req) = Some s \<and> shelf_products s \<noteq> []
              \<and> accepts db \<lparr>cfg_shelfId = shelf_param req, cfg_priceLevels = x,
                    combinationCount = x ^ length (shelf_products s),
                    estimatedDuration = 30 * x ^ length (shelf_products s), createdBy = uid\<rparr>))
     \<and> (fst (postConjointConfiguration req db) = 200 \<longrightarrow>
           (\<exists>x s. priceLevels_body req = JNumber x \<and> findShelf db (shelf_param req) = Some s
              \<and> snd (postConjointConfiguration req db) =
                  db\<lparr>conjointConfigurations := conjointConfigurations db @
                   [\<lparr>cfg_shelfId = shelf_param req, cfg_priceLevels = x,
                     combinationCount = x ^ length (shelf_products s),
                     estimatedDuration = 30 * x ^ length (shelf_products s), createdBy = uid\<rparr>]\<rparr>))"
  proof (intro allI impI)
  fix uid
  assume "userId req = Some uid \<and> uid \<noteq> 0 \<and> answers db"
  then have auth: "userId req = Some uid" "uid \<noteq> 0" "answers db" by simp_all
  show "(fst (postConjointConfiguration req db) = 400 \<longleftrightarrow>
            \<not> (\<exists>x. priceLevels_body req = JNumber x \<and> 2 \<le> x \<and> x \<le> 5)
            \<or> (\<exists>s. findShelf db (shelf_param req) = Some s \<and> shelf_products s = []))
     \<and> (fst (postConjointConfiguration req db) = 400 \<longrightarrow> snd (postConjointConfiguration req db) = db)
     \<and> ((\<exists>x. priceLevels_body req = JNumber x \<and> 2 \<le> x \<and> x \<le> 5)
            \<and> findShelf db (shelf_param req) = None
          \<longrightarrow> fst (postConjointConfiguration req db) = 404 \<and> snd (postConjointConfiguration req db) = db)
     \<and> (fst (postConjointConfiguration req db) = 200 \<longleftrightarrow>
           (\<exists>x s. priceLevels_body req = JNumber x \<and> 2 \<le> x \<and> x \<le> 5
              \<and> findShelf db (shelf_param req) = Some s \<and> shelf_products s \<noteq> []
              \<and> accepts db \<lparr>cfg_shelfId = shelf_param req, cfg_priceLevels = x,
                    combinationCount = x ^ length (shelf_products s),
                    estimatedDuration = 30 * x ^ length (shelf_products s), createdBy = uid\<rparr>))
     \<and> (fst (postConjointConfiguration req db) = 200 \<longrightarrow>
           (\<exists>x s. priceLevels_body req = JNumber x \<and> findShelf db (shelf_param req) = Some s
              \<and> snd (postConjointConfiguration req db) =
                  db\<lparr>conjointConfigurations := conjointConfigurations db @
                   [\<lparr>cfg_shelfId = shelf_param req, cfg_priceLevels = x,
                     combinationCount = x ^ length (shelf_products s),
                     estimatedDuration = 30 * x ^ length (shelf_products s), createdBy = uid\<rparr>]\<rparr>))"
  proof (cases "invalidPriceLevels (priceLevels_body req)")
    case True
    then have "postConjointConfiguration req db = (400, db)"
      using auth(1,2) by (simp add: postConjointConfiguration_def)
    then show ?thesis using True by (auto simp: invalidPriceLevels_iff)
  next
    case False
    then obtain x where x: "priceLevels_body req = JNumber x" "2 \<le> x" "x \<le> 5"
      by (auto simp: invalidPriceLevels_iff)
    show ?thesis
    proof (cases "findShelf db (shelf_param req)")
      case None
      then have "postConjointConfiguration req db = (404, db)"
        using auth False x by (simp add: postConjointConfiguration_def)
      then show ?thesis using x None by auto
    next
      case (Some s)
      then show ?thesis
        using auth False x
        by (auto simp: postConjointConfiguration_def Let_def mult.commute)
    qed
  qed
  qed
qed

theorem postConjointConfiguration_statuses_witness:
  "postConjointConfiguration
          \<lparr>userId = None, shelf_param = 7, priceLevels_body = JNumber 3\<rparr> database1 = (401, database1)
   \<and> fst (postConjointConfiguration
          \<lparr>userId = Some 3, shelf_param = 7, priceLevels_body = JNumber 3\<rparr> database1) = 200
   \<and> fst (postConjointConfiguration
          \<lparr>userId = Some 3, shelf_param = 7, priceLevels_body = JNumber 6\<rparr> database1) = 400
   \<and> fst (postConjointConfiguration
          \<lparr>userId = Some 3, shelf_param = 8, priceLevels_body = JNumber 3\<rparr> database1) = 404"
proof -
  have a: "answers database1" by (simp add: database1_def)
  have f7: "findShelf database1 7 = Some \<lparr>shelf_id = 7, shelf_products = [product1]\<rparr>"
    by (simp add: findShelf_def database1_def)
  have f8: "findShelf database1 8 = None"
    by (simp add: findShelf_def database1_def)
  have acc: "accepts database1 c" for c by (simp add: database1_def)
  have "postConjointConfiguration
          \<lparr>userId = None, shelf_param = 7, priceLevels_body = JNumber 3\<rparr> database1 = (401, database1)"
    using postConjointConfiguration_statuses
      [of "\<lparr>userId = None, shelf_param = 7, priceLevels_body = JNumber 3\<rparr>" database1]
    by simp
  moreover have "fst (postConjointConfiguration
          \<lparr>userId = Some 3, shelf_param = 7, priceLevels_body = JNumber 3\<rparr> database1) = 200"
    using postConjointConfiguration_statuses
      [of "\<lparr>userId = Some 3, shelf_param = 7, priceLevels_body = JNumber 3\<rparr>" database1] a f7 acc
    by simp
  moreover have "fst (postConjointConfiguration
          \<lparr>userId = Some 3, shelf_param = 7, priceLevels_body = JNumber 6\<rparr> database1) = 400"
    using postConjointConfiguration_statuses
      [of "\<lparr>userId = Some 3, shelf_param = 7, priceLevels_body = JNumber 6\<rparr>" database1] a
    by simp
  moreover have "fst (postConjointConfiguration
          \<lparr>userId = Some 3, shelf_param = 8, priceLevels_body = JNumber 3\<rparr> database1) = 404"
    using postConjointConfiguration_statuses
      [of "\<lparr>userId = Some 3, shelf_param = 8, priceLevels_body = JNumber 3\<rparr>" database1] a f8
    by simp
  ultimately show ?thesis by simp
qed

section \<open>How many products a combination shows\<close>






section \<open>The preference parsers\<close>

lemma getPersonaPreference_selectedIndex:
  "getPersonaPreference c ps = map_option (\<lambda>k. offer_id (ps ! k)) (selectedIndex c (length ps))"
  by (simp add: getPersonaPreference_def selectedIndex_def Let_def
      split: completion.splits option.splits)

lemma selectedIndex_less: "selectedIndex c n = Some k \<Longrightarrow> k < n"
  by (auto simp: selectedIndex_def Let_def split: completion.splits option.splits if_splits)

text \<open>
  C9. Whatever the completion call gives, each parser returns \<open>null\<close> or the id of one
  of the products it was given.
\<close>

theorem parsers_return_null_or_given_id:
  "(getPersonaPreference c ps = None \<or> getPersonaPreference c ps \<in> Some ` offer_id ` set ps)
   \<and> (getSimulatedConsumerPreference c ps = None
        \<or> getSimulatedConsumerPreference c ps \<in> Some ` offer_id ` set ps)"
proof -
  have "getSimulatedConsumerPreference c ps = getPersonaPreference c ps"
    by (simp add: getSimulatedConsumerPreference_def getPersonaPreference_def)
  moreover have "getPersonaPreference c ps = None
      \<or> getPersonaPreference c ps \<in> Some ` offer_id ` set ps"
  proof (cases "selectedIndex c (length ps)")
    case None
    then show ?thesis by (simp add: getPersonaPreference_selectedIndex)
  next
    case (Some k)
    then have "k < length ps" by (rule selectedIndex_less)
    then have "ps ! k \<in> set ps" by simp
    then show ?thesis by (simp add: getPersonaPreference_selectedIndex Some)
  qed
  ultimately show ?thesis by simp
qed

section \<open>Elasticity at a list price of zero\<close>

text \<open>
  Away from the two zero divisors (no responses in the whole analysis, a list price of
  zero) the optimal price is a finite number and the elasticity is 0 when it equals the
  list price and the absolute value of the quotient of the two changes otherwise.
\<close>

lemma calculateOptimalPrice_finite:
  assumes "totalResponses a \<noteq> 0"
  shows "\<exists>x. calculateOptimalPrice (Some a) p = Fin x"
  using assms
  by (simp add: calculateOptimalPrice_def Let_def js_sub_def)

lemma calculatePriceElasticity_regular:
  assumes "totalResponses a \<noteq> 0" and "pa_listPrice p \<noteq> 0"
    and "calculateOptimalPrice (Some a) p = Fin x"
  shows "calculatePriceElasticity (Some a) p =
     (if x = of_int (pa_listPrice p) then Fin 0
      else Fin \<bar>double_round
                 (double_round
                    (double_round
                       (double_round (of_nat (sum_list (pa_responses p)) / of_nat (totalResponses a))
                          - 1 / 2) / (1 / 2))
                  / double_round (double_round (x - of_int (pa_listPrice p)) / of_int (pa_listPrice p)))\<bar>)"
  using assms
  by (simp add: calculatePriceElasticity_def Let_def js_sub_def)

text \<open>
  C7. The claim: \<open>calculatePriceElasticity\<close> never divides by zero and returns 0 when
  the optimal price equals the list price. For a product with list price 0 and no
  responses the optimal price is the list price, the price change is 0 / 0, and the
  result is \<open>NaN\<close>.
\<close>

theorem elasticity_zero_list_price:
  "calculateOptimalPrice (Some \<lparr>totalResponses = 10\<rparr>)
      \<lparr>pa_responses = [], pa_listPrice = 0, pa_lowPrice = None, pa_highPrice = None\<rparr> = Fin 0
   \<and> calculatePriceElasticity (Some \<lparr>totalResponses = 10\<rparr>)
      \<lparr>pa_responses = [], pa_listPrice = 0, pa_lowPrice = None, pa_highPrice = None\<rparr> = NaN"
  by (simp add: calculateOptimalPrice_def calculatePriceElasticity_def Let_def js_sub_def)


section \<open>A simulated run: the entries that are kept\<close>

lemma update_fresh: "k \<notin> fst ` set al \<Longrightarrow> AList.update k v al = al @ [(k, v)]"
  by (induction al) auto

lemma fold_update_fresh:
  "distinct (map id_of ps) \<Longrightarrow> id_of ` set ps \<inter> fst ` set acc = {} \<Longrightarrow>
   fold (\<lambda>p sim. AList.update (id_of p) (0, []) sim) ps acc
     = acc @ map (\<lambda>p. (id_of p, (0::nat, []))) ps"
proof (induction ps arbitrary: acc)
  case Nil
  then show ?case by simp
next
  case (Cons p ps)
  have "id_of p \<notin> fst ` set acc" using Cons.prems(2) by auto
  then have u: "AList.update (id_of p) (0::nat, []) acc = acc @ [(id_of p, (0, []))]"
    by (rule update_fresh)
  have "id_of ` set ps \<inter> fst ` set (acc @ [(id_of p, (0::nat, []))]) = {}"
    using Cons.prems by auto
  with Cons.IH[of "acc @ [(id_of p, (0, []))]"] Cons.prems(1) show ?case
    by (simp add: u)
qed

lemma initResults_distinct:
  "distinct (map id_of ps) \<Longrightarrow> initResults ps = map (\<lambda>p. (id_of p, (0, []))) ps"
  using fold_update_fresh[of ps "[]"] by (simp add: initResults_def)

lemma find_Some_member: "find P xs = Some x \<Longrightarrow> x \<in> set xs \<and> P x"
  by (induction xs) (auto split: if_splits)

lemma key_present:
  assumes "k \<in> set (map fst al)"
  shows "\<exists>v. map_of al k = Some v"
  using assms by (metis map_of_eq_None_iff not_Some_eq set_map)

lemma recordSelection_ok:
  assumes "offer_id ` set comb \<subseteq> set (map fst sim)"
  shows "\<exists>sim'. recordSelection sim comb x = Some sim' \<and> map fst sim' = map fst sim"
proof (cases x)
  case None
  then show ?thesis by (simp add: recordSelection_def)
next
  case (Some pid)
  show ?thesis
  proof (cases "pid = 0")
    case True
    then show ?thesis by (simp add: recordSelection_def Some)
  next
    case False
    show ?thesis
    proof (cases "find (\<lambda>p. offer_id p = pid) comb")
      case None
      then show ?thesis using False by (simp add: recordSelection_def Some)
    next
      case found: (Some o1)
      then have "o1 \<in> set comb" "offer_id o1 = pid" using find_Some_member by fastforce+
      then have k: "pid \<in> set (map fst sim)" using assms by auto
      from key_present[OF k] obtain result where r: "map_of sim pid = Some result" ..
      show ?thesis using False k
        by (simp add: recordSelection_def Some found r update_keys)
    qed
  qed
qed

lemma processCombinations_ok:
  assumes "\<forall>c \<in> set cs. offer_id ` set c \<subseteq> set (map fst sim)"
  shows "\<exists>sim'. processCombinations r j cs sim = Some sim' \<and> map fst sim' = map fst sim"
  using assms
proof (induction cs arbitrary: sim j)
  case Nil
  then show ?case by simp
next
  case (Cons c cs)
  from Cons.prems have "offer_id ` set c \<subseteq> set (map fst sim)" by simp
  from recordSelection_ok[OF this, of "getPersonaPreference (r j) c"]
  obtain sim1 where s1: "recordSelection sim c (getPersonaPreference (r j) c) = Some sim1"
    "map fst sim1 = map fst sim" by blast
  from Cons.prems s1(2) have "\<forall>c \<in> set cs. offer_id ` set c \<subseteq> set (map fst sim1)" by simp
  from Cons.IH[OF this, of "Suc j"] show ?case by (simp add: s1)
qed

lemma processPersonas_ok:
  assumes "\<forall>c \<in> set m. offer_id ` set c \<subseteq> set (map fst sim)"
  shows "\<exists>sim'. processPersonas r i ps m sim = Some sim' \<and> map fst sim' = map fst sim"
  using assms
proof (induction ps arbitrary: sim i)
  case Nil
  then show ?case by simp
next
  case (Cons p ps)
  from processCombinations_ok[OF Cons.prems, of "r i" 0]
  obtain sim1 where s1: "processCombinations (r i) 0 m sim = Some sim1"
    "map fst sim1 = map fst sim" by blast
  from Cons.prems s1(2) have "\<forall>c \<in> set m. offer_id ` set c \<subseteq> set (map fst sim1)" by simp
  from Cons.IH[OF this, of "Suc i"] show ?case by (simp add: s1)
qed

lemma simulate_ok:
  assumes "distinct (map id_of ps)"
  shows "\<exists>sim. simulate ps configured personas reply = Some sim \<and> map fst sim = map id_of ps"
proof -
  have i: "map fst (initResults ps) = map id_of ps"
    by (simp add: initResults_distinct[OF assms] comp_def)
  have "\<forall>c \<in> set (generateConjointMatrix ps (js_or configured 3)).
          offer_id ` set c \<subseteq> set (map fst (initResults ps))"
  proof
    fix c assume "c \<in> set (generateConjointMatrix ps (js_or configured 3))"
    then have "map offer_id c = map id_of ps" by (rule row_ids)
    then have "set (map offer_id c) = set (map id_of ps)" by simp
    then show "offer_id ` set c \<subseteq> set (map fst (initResults ps))" by (simp add: i)
  qed
  from processPersonas_ok[OF this, of reply 0 personas] show ?thesis
    by (simp add: simulate_def Let_def i)
qed

lemma those_map_Some:
  "(\<And>x. x \<in> set xs \<Longrightarrow> f x = Some (g x)) \<Longrightarrow> those (map f xs) = Some (map g xs)"
  by (induction xs) simp_all

lemma map_of_keys:
  "distinct (map fst al) \<Longrightarrow> map (map_of al) (map fst al) = map (\<lambda>e. Some (snd e)) al"
proof (induction al)
  case Nil
  then show ?case by simp
next
  case (Cons e al)
  obtain k v where e: "e = (k, v)" by (cases e)
  from Cons.prems have nk: "k \<notin> fst ` set al" and d: "distinct (map fst al)" by (auto simp: e)
  have "map (map_of (e # al)) (map fst al) = map (map_of al) (map fst al)"
    using nk by (intro map_cong) (auto simp: e)
  then show ?case using Cons.IH[OF d] by (simp add: e)
qed

lemma lookup_products:
  assumes "distinct (map id_of ps)" and "map fst sim = map id_of ps"
  shows "map (\<lambda>p. map_of sim (id_of p)) ps = map (\<lambda>e. Some (snd e)) sim"
proof -
  have "distinct (map fst sim)" using assms by simp
  from map_of_keys[OF this] show ?thesis by (simp add: assms(2) comp_def)
qed

lemma of_nat_sum_list_map:
  "(of_nat (sum_list (map f xs)) :: rat) = sum_list (map (\<lambda>x. of_nat (f x)) xs)"
  by (induction xs) simp_all

section \<open>The preference shares of a run\<close>

text \<open>
  C3, as stated: over every non-empty product list the shares sum to exactly 1. Two
  runs where they do not. A shelf may hold the same product twice (\<open>shelf_products\<close>
  has no uniqueness constraint and the route that fills it stores the ids it is sent);
  then both entries of the response report the share of the one product, and the shares
  sum to 2. And for six different products and no selection each share is the double
  nearest to 1/6, which lies below 1/6: the six shares add up to \<open>1 - 2^-54\<close>, and added
  one after the other as doubles to 0.9999999999999999, which is \<open>1 - 2^-53\<close>.
\<close>

theorem preference_shares_not_one_counterexample:
  "sum_list (map preferenceShare
        (the (runSurvey [product1, product1] (Some 2) [()] (\<lambda>i j. Content (Some ''1''))))) = 2
   \<and> distinct (map id_of sixProducts)
   \<and> map preferenceShare (the (runSurvey sixProducts None ([] :: unit list) (\<lambda>i j. ApiError)))
        = replicate 6 (6004799503160661 / 36028797018963968)
   \<and> sum_list (map preferenceShare
        (the (runSurvey sixProducts None ([] :: unit list) (\<lambda>i j. ApiError))))
        = 18014398509481983 / 18014398509481984
   \<and> foldl js_plus 0 (map preferenceShare
        (the (runSurvey sixProducts None ([] :: unit list) (\<lambda>i j. ApiError))))
        = 9007199254740991 / 9007199254740992"
proof -
  have run: "runSurvey [product1, product1] (Some 2) [()] (\<lambda>i j. Content (Some ''1''))
     = Some [\<lparr>optimalPrice = 10, preferenceShare = 1\<rparr>, \<lparr>optimalPrice = 10, preferenceShare = 1\<rparr>]"
    by code_simp
  have d: "distinct (map id_of sixProducts)"
    by (simp add: sixProducts_def)
  have sim: "simulate sixProducts None ([] :: unit list) (\<lambda>i j. ApiError) = Some (initResults sixProducts)"
    by (simp add: simulate_def Let_def)
  have res: "those (map (productResult sixProducts (initResults sixProducts)) sixProducts)
     = Some (replicate 6 \<lparr>optimalPrice = 10, preferenceShare = 6004799503160661 / 36028797018963968\<rparr>)"
    by code_simp
  have six: "runSurvey sixProducts None ([] :: unit list) (\<lambda>i j. ApiError)
     = Some (replicate 6 \<lparr>optimalPrice = 10, preferenceShare = 6004799503160661 / 36028797018963968\<rparr>)"
    by (simp add: runSurvey_def sim res)
  have added: "foldl js_plus 0 (replicate 6 (6004799503160661 / 36028797018963968))
     = 9007199254740991 / 9007199254740992"
    by code_simp
  have shares: "map preferenceShare
       (replicate 6 \<lparr>optimalPrice = 10, preferenceShare = 6004799503160661 / 36028797018963968\<rparr>)
     = replicate 6 (6004799503160661 / 36028797018963968)"
    by simp
  show ?thesis
    unfolding run six option.sel shares
    using d added by (simp add: sum_list_replicate)
qed

text \<open>
  C3, amended. For a non-empty product list with pairwise distinct product ids, every
  run returns its results, one for each product; the share of a product is its number
  of selections divided by the total number of selections when that total is positive,
  and 1 divided by the number of products otherwise, each quotient a double; the
  numbers of selections add up to the total; and the shares sum to 1 up to the rounding
  of the quotients: their sum differs from 1 by at most \<open>2^-53\<close>.
\<close>

theorem preferenceShare_sum:
  assumes "productsData \<noteq> []" and "distinct (map id_of productsData)"
  shows "\<exists>sim rs. simulate productsData configured personas reply = Some sim
    \<and> runSurvey productsData configured personas reply = Some rs
    \<and> length rs = length productsData
    \<and> (\<forall>i < length productsData. \<exists>sel prices.
          map_of sim (id_of (productsData ! i)) = Some (sel, prices)
          \<and> preferenceShare (rs ! i) =
              (if totalSelections sim > 0 then js_divide (of_nat sel) (of_nat (totalSelections sim))
               else js_divide 1 (of_nat (length productsData))))
    \<and> sum_list (map (\<lambda>p. fst (the (map_of sim (id_of p)))) productsData) = totalSelections sim
    \<and> \<bar>sum_list (map preferenceShare rs) - 1\<bar> \<le> 1 / 2 ^ 53"
proof -
  from simulate_ok[OF assms(2), of configured personas reply]
  obtain sim where sim: "simulate productsData configured personas reply = Some sim"
    and keys: "map fst sim = map id_of productsData" by blast
  note look = lookup_products[OF assms(2) keys]
  define exact :: "nat \<times> int list \<Rightarrow> rat" where
    "exact result = (if totalSelections sim > 0
                     then of_nat (fst result) / of_nat (totalSelections sim)
                     else 1 / of_nat (length productsData))" for result
  define res where "res p = the (productResult productsData sim p)" for p
  define rs where "rs = map res productsData"
  have found: "\<exists>result. map_of sim (id_of p) = Some result" if "p \<in> set productsData" for p
  proof -
    have "id_of p \<in> set (map fst sim)" using that by (simp add: keys)
    then show ?thesis by (rule key_present)
  qed
  have pr: "productResult productsData sim p = Some (res p)" if "p \<in> set productsData" for p
    using found[OF that] by (auto simp: res_def productResult_def Let_def)
  have run: "runSurvey productsData configured personas reply = Some rs"
    by (simp add: runSurvey_def sim rs_def those_map_Some[OF pr])
  have sh: "preferenceShare (res p) = double_round (exact (the (map_of sim (id_of p))))"
    if "p \<in> set productsData" for p
    using found[OF that] by (auto simp: res_def productResult_def Let_def exact_def js_divide_def)
  have each: "\<exists>sel prices. map_of sim (id_of (productsData ! i)) = Some (sel, prices)
          \<and> preferenceShare (rs ! i) =
              (if totalSelections sim > 0 then js_divide (of_nat sel) (of_nat (totalSelections sim))
               else js_divide 1 (of_nat (length productsData)))" if "i < length productsData" for i
  proof -
    have m: "productsData ! i \<in> set productsData" using that by simp
    from found[OF m] obtain sel prices where
      r: "map_of sim (id_of (productsData ! i)) = Some (sel, prices)" by (metis surj_pair)
    show ?thesis using sh[OF m] that by (simp add: r rs_def exact_def js_divide_def)
  qed
  have "map (\<lambda>p. fst (the (map_of sim (id_of p)))) productsData
      = map (\<lambda>x. fst (the x)) (map (\<lambda>p. map_of sim (id_of p)) productsData)"
    by (simp add: comp_def)
  also have "\<dots> = map (\<lambda>e. fst (snd e)) sim"
    by (simp add: look comp_def)
  finally have counts: "sum_list (map (\<lambda>p. fst (the (map_of sim (id_of p)))) productsData)
      = totalSelections sim"
    by (simp add: totalSelections_def)
  have "map preferenceShare rs
      = map (\<lambda>p. double_round (exact (the (map_of sim (id_of p))))) productsData"
    by (simp add: rs_def sh)
  also have "\<dots> = map (\<lambda>x. double_round (exact (the x))) (map (\<lambda>p. map_of sim (id_of p)) productsData)"
    by (simp add: comp_def)
  also have "\<dots> = map (\<lambda>e. double_round (exact (snd e))) sim"
    by (simp add: look comp_def)
  finally have shares: "map preferenceShare rs = map (\<lambda>e. double_round (exact (snd e))) sim" .
  have len: "length sim = length productsData"
    using keys by (metis length_map)
  have total: "sum_list (map (\<lambda>e. exact (snd e)) sim) = 1"
  proof (cases "totalSelections sim > 0")
    case True
    have "sum_list (map (\<lambda>e. exact (snd e)) sim)
        = sum_list (map (\<lambda>e. of_nat (fst (snd e)) * (1 / of_nat (totalSelections sim))) sim)"
      using True by (simp add: exact_def)
    also have "\<dots> = sum_list (map (\<lambda>e. of_nat (fst (snd e))) sim)
                      * (1 / of_nat (totalSelections sim))"
      by (rule sum_list_mult_const)
    also have "sum_list (map (\<lambda>e. (of_nat (fst (snd e)) :: rat)) sim)
                 = of_nat (totalSelections sim)"
      by (simp add: totalSelections_def of_nat_sum_list_map)
    finally show ?thesis using True by simp
  next
    case False
    then have "sum_list (map (\<lambda>e. exact (snd e)) sim)
        = sum_list (map (\<lambda>e. 1 / of_nat (length productsData)) sim)"
      by (simp add: exact_def)
    also have "\<dots> = of_nat (length sim) * (1 / of_nat (length productsData))"
      by (simp add: sum_list_triv)
    finally show ?thesis using assms(1) by (simp add: len)
  qed
  have nonneg: "0 \<le> exact result" for result
    by (simp add: exact_def)
  have "\<bar>sum_list (map (\<lambda>e. double_round (exact (snd e))) sim)
          - sum_list (map (\<lambda>e. exact (snd e)) sim)\<bar>
      \<le> sum_list (map (\<lambda>e. exact (snd e) * (1 / 2 ^ 53)) sim)"
  proof (rule sum_list_abs_diff)
    fix e
    show "\<bar>double_round (exact (snd e)) - exact (snd e)\<bar> \<le> exact (snd e) * (1 / 2 ^ 53)"
      using double_round_error[OF nonneg, of "snd e"] by simp
  qed
  also have "\<dots> = sum_list (map (\<lambda>e. exact (snd e)) sim) * (1 / 2 ^ 53)"
    by (rule sum_list_mult_const)
  finally have bound: "\<bar>sum_list (map preferenceShare rs) - 1\<bar> \<le> 1 / 2 ^ 53"
    by (simp add: total shares)
  show ?thesis
    using sim run each counts bound by (auto simp: rs_def)
qed

theorem preferenceShare_sum_witness:
  "\<exists>rs. runSurvey [product1, product2] (Some 2) [()] reply12 = Some rs
     \<and> map preferenceShare rs = [1 / 4, 3 / 4]
     \<and> \<bar>sum_list (map preferenceShare rs) - 1\<bar> \<le> 1 / 2 ^ 53"
proof -
  have run: "runSurvey [product1, product2] (Some 2) [()] reply12
      = Some [\<lparr>optimalPrice = 8, preferenceShare = 1 / 4\<rparr>,
              \<lparr>optimalPrice = 6, preferenceShare = 3 / 4\<rparr>]"
    by code_simp
  have d: "distinct (map id_of [product1, product2])"
    by (simp add: product1_def product2_def)
  have ne: "[product1, product2] \<noteq> []" by simp
  from preferenceShare_sum [OF ne d, of "Some 2" "[()]" reply12]
  obtain rs where rs: "runSurvey [product1, product2] (Some 2) [()] reply12 = Some rs"
    and one: "\<bar>sum_list (map preferenceShare rs) - 1\<bar> \<le> 1 / 2 ^ 53"
    by (elim exE conjE) (rule that)
  from rs run have "rs = [\<lparr>optimalPrice = 8, preferenceShare = 1 / 4\<rparr>,
              \<lparr>optimalPrice = 6, preferenceShare = 3 / 4\<rparr>]" by simp
  then have "map preferenceShare rs = [1 / 4, 3 / 4]" by simp
  with rs one show ?thesis by (intro exI[of _ rs] conjI)
qed

section \<open>The optimal price of a run\<close>

lemma find_distinct_nth:
  "distinct (map f xs) \<Longrightarrow> k < length xs \<Longrightarrow> find (\<lambda>p. f p = f (xs ! k)) xs = Some (xs ! k)"
proof (induction xs arbitrary: k)
  case Nil
  then show ?case by simp
next
  case (Cons x xs)
  show ?case
  proof (cases k)
    case 0
    then show ?thesis by simp
  next
    case (Suc k')
    with Cons.prems have k': "k' < length xs" and d: "distinct (map f xs)" by simp_all
    from k' have "f (xs ! k') \<in> set (map f xs)" by simp
    with Cons.prems(1) have "f x \<noteq> f (xs ! k')" by auto
    with Cons.IH[OF d k'] Suc show ?thesis by simp
  qed
qed

lemma extend_Nil: "extend [] result = result"
  by (simp add: extend_def)

lemma extend_append: "extend ys (extend xs result) = extend (xs @ ys) result"
  by (simp add: extend_def)

lemma map_option_extend_extend:
  "map_option (extend ys) (map_option (extend xs) v) = map_option (extend (xs @ ys)) v"
  by (cases v) (simp_all add: extend_append)

lemma upt_0_Suc: "[0..<Suc n] = 0 # map Suc [0..<n]"
  by (simp add: upt_conv_Cons map_Suc_upt del: upt_Suc)

lemma recordSelection_content:
  assumes "distinct (map offer_id comb)" and "\<forall>o1 \<in> set comb. offer_id o1 \<noteq> 0"
    and "offer_id ` set comb \<subseteq> set (map fst sim)"
  shows "\<exists>sim'. recordSelection sim comb (getPersonaPreference c comb) = Some sim'
           \<and> map fst sim' = map fst sim
           \<and> (\<forall>pid. map_of sim' pid = map_option (extend (selectedAt c comb pid)) (map_of sim pid))"
proof (cases "selectedIndex c (length comb)")
  case None
  then show ?thesis
    by (simp add: getPersonaPreference_selectedIndex recordSelection_def selectedAt_def extend_Nil
        option.map_ident cong: option.map_cong)
next
  case (Some k)
  then have k: "k < length comb" by (rule selectedIndex_less)
  define o1 where "o1 = comb ! k"
  have m: "o1 \<in> set comb" using k by (simp add: o1_def)
  have nz: "offer_id o1 \<noteq> 0" using assms(2) m by simp
  have f: "find (\<lambda>p. offer_id p = offer_id o1) comb = Some o1"
    unfolding o1_def by (rule find_distinct_nth[OF assms(1) k])
  have present: "offer_id o1 \<in> set (map fst sim)" using assms(3) m by auto
  from key_present[OF present] obtain result where r: "map_of sim (offer_id o1) = Some result" ..
  let ?sim' = "AList.update (offer_id o1) (fst result + 1, snd result @ [currentPrice o1]) sim"
  have rs: "recordSelection sim comb (getPersonaPreference c comb) = Some ?sim'"
    using nz
    by (simp add: getPersonaPreference_selectedIndex Some recordSelection_def f r o1_def[symmetric])
  have keys: "map fst ?sim' = map fst sim"
    using present by (simp add: update_keys)
  have "map_of ?sim' pid = map_option (extend (selectedAt c comb pid)) (map_of sim pid)" for pid
    by (cases "pid = offer_id o1")
       (auto simp: update_conv' selectedAt_def Some o1_def[symmetric] r extend_def
          option.map_ident cong: option.map_cong)
  then show ?thesis using rs keys by simp
qed

lemma processCombinations_content:
  assumes "\<forall>c \<in> set cs. distinct (map offer_id c) \<and> (\<forall>o1 \<in> set c. offer_id o1 \<noteq> 0)
             \<and> offer_id ` set c \<subseteq> set (map fst sim)"
  shows "\<exists>sim'. processCombinations r j cs sim = Some sim'
           \<and> map fst sim' = map fst sim
           \<and> (\<forall>pid. map_of sim' pid =
                 map_option (extend (concat (map (\<lambda>k. selectedAt (r (j + k)) (cs ! k) pid)
                                               [0..<length cs])))
                   (map_of sim pid))"
  using assms
proof (induction cs arbitrary: sim j)
  case Nil
  then show ?case by (simp add: extend_Nil option.map_ident cong: option.map_cong)
next
  case (Cons c cs)
  from Cons.prems have c: "distinct (map offer_id c)" "\<forall>o1 \<in> set c. offer_id o1 \<noteq> 0"
    "offer_id ` set c \<subseteq> set (map fst sim)" by simp_all
  from recordSelection_content[OF c, of "r j"]
  obtain sim1 where s1: "recordSelection sim c (getPersonaPreference (r j) c) = Some sim1"
    "map fst sim1 = map fst sim"
    "\<And>pid. map_of sim1 pid = map_option (extend (selectedAt (r j) c pid)) (map_of sim pid)"
    by blast
  from Cons.prems s1(2)
  have "\<forall>c \<in> set cs. distinct (map offer_id c) \<and> (\<forall>o1 \<in> set c. offer_id o1 \<noteq> 0)
             \<and> offer_id ` set c \<subseteq> set (map fst sim1)" by simp
  from Cons.IH[OF this, of "Suc j"]
  obtain sim2 where s2: "processCombinations r (Suc j) cs sim1 = Some sim2"
    "map fst sim2 = map fst sim1"
    "\<And>pid. map_of sim2 pid =
        map_option (extend (concat (map (\<lambda>k. selectedAt (r (Suc j + k)) (cs ! k) pid)
                                      [0..<length cs])))
          (map_of sim1 pid)"
    by blast
  have "map_of sim2 pid =
     map_option (extend (concat (map (\<lambda>k. selectedAt (r (j + k)) ((c # cs) ! k) pid)
                                   [0..<length (c # cs)])))
       (map_of sim pid)" for pid
    by (simp add: s2(3) s1(3) map_option_extend_extend upt_0_Suc comp_def del: upt_Suc)
  then show ?case using s1 s2 by simp
qed

lemma processPersonas_content:
  assumes "\<forall>c \<in> set m. distinct (map offer_id c) \<and> (\<forall>o1 \<in> set c. offer_id o1 \<noteq> 0)
             \<and> offer_id ` set c \<subseteq> set (map fst sim)"
  shows "\<exists>sim'. processPersonas r i ps m sim = Some sim'
           \<and> map fst sim' = map fst sim
           \<and> (\<forall>pid. map_of sim' pid =
                 map_option
                   (extend (concat (map (\<lambda>n. concat (map (\<lambda>k. selectedAt (r (i + n) k) (m ! k) pid)
                                                        [0..<length m]))
                                     [0..<length ps])))
                   (map_of sim pid))"
  using assms
proof (induction ps arbitrary: sim i)
  case Nil
  then show ?case by (simp add: extend_Nil option.map_ident cong: option.map_cong)
next
  case (Cons p ps)
  from processCombinations_content[OF Cons.prems, of "r i" 0]
  obtain sim1 where s1: "processCombinations (r i) 0 m sim = Some sim1"
    "map fst sim1 = map fst sim"
    "\<And>pid. map_of sim1 pid =
       map_option (extend (concat (map (\<lambda>k. selectedAt (r i k) (m ! k) pid) [0..<length m])))
         (map_of sim pid)"
    by auto
  from Cons.prems s1(2)
  have "\<forall>c \<in> set m. distinct (map offer_id c) \<and> (\<forall>o1 \<in> set c. offer_id o1 \<noteq> 0)
             \<and> offer_id ` set c \<subseteq> set (map fst sim1)" by simp
  from Cons.IH[OF this, of "Suc i"]
  obtain sim2 where s2: "processPersonas r (Suc i) ps m sim1 = Some sim2"
    "map fst sim2 = map fst sim1"
    "\<And>pid. map_of sim2 pid =
        map_option
          (extend (concat (map (\<lambda>n. concat (map (\<lambda>k. selectedAt (r (Suc i + n) k) (m ! k) pid)
                                               [0..<length m]))
                            [0..<length ps])))
          (map_of sim1 pid)"
    by blast
  have "map_of sim2 pid =
     map_option
       (extend (concat (map (\<lambda>n. concat (map (\<lambda>k. selectedAt (r (i + n) k) (m ! k) pid)
                                            [0..<length m]))
                         [0..<length (p # ps)])))
       (map_of sim pid)" for pid
    by (simp add: s2(3) s1(3) map_option_extend_extend upt_0_Suc comp_def del: upt_Suc)
  then show ?case using s1 s2 by simp
qed

lemma simulate_content:
  assumes "distinct (map id_of ps)" and "\<forall>p \<in> set ps. id_of p \<noteq> 0"
  shows "\<exists>sim. simulate ps configured personas reply = Some sim
           \<and> map fst sim = map id_of ps
           \<and> (\<forall>p \<in> set ps. map_of sim (id_of p) =
                 Some (length (selectedPrices ps configured (length personas) reply (id_of p)),
                       selectedPrices ps configured (length personas) reply (id_of p)))"
proof -
  let ?m = "generateConjointMatrix ps (js_or configured 3)"
  have i: "map fst (initResults ps) = map id_of ps"
    by (simp add: initResults_distinct[OF assms(1)] comp_def)
  have "\<forall>c \<in> set ?m. distinct (map offer_id c) \<and> (\<forall>o1 \<in> set c. offer_id o1 \<noteq> 0)
             \<and> offer_id ` set c \<subseteq> set (map fst (initResults ps))"
  proof
    fix c assume "c \<in> set ?m"
    then have ids: "map offer_id c = map id_of ps" by (rule row_ids)
    then have "set (map offer_id c) = set (map id_of ps)" by simp
    then have s: "offer_id ` set c = id_of ` set ps" by simp
    have "\<forall>o1 \<in> set c. offer_id o1 \<noteq> 0"
    proof
      fix o1 assume "o1 \<in> set c"
      then have "offer_id o1 \<in> id_of ` set ps" using s by auto
      then show "offer_id o1 \<noteq> 0" using assms(2) by auto
    qed
    then show "distinct (map offer_id c) \<and> (\<forall>o1 \<in> set c. offer_id o1 \<noteq> 0)
             \<and> offer_id ` set c \<subseteq> set (map fst (initResults ps))"
      using s assms(1) by (simp add: ids i)
  qed
  from processPersonas_content[OF this, of reply 0 personas]
  obtain sim where sim: "processPersonas reply 0 personas ?m (initResults ps) = Some sim"
    "map fst sim = map fst (initResults ps)"
    "\<And>pid. map_of sim pid =
       map_option (extend (selectedPrices ps configured (length personas) reply pid))
         (map_of (initResults ps) pid)"
    by (auto simp: selectedPrices_def Let_def)
  have "map_of (initResults ps) (id_of p) = Some (0, [])" if "p \<in> set ps" for p
  proof -
    have "(id_of p, (0, [])) \<in> set (initResults ps)"
      using that by (auto simp: initResults_distinct[OF assms(1)])
    moreover have "distinct (map fst (initResults ps))" using assms(1) by (simp add: i)
    ultimately show ?thesis by simp
  qed
  then show ?thesis using sim by (simp add: simulate_def Let_def i extend_def)
qed

text \<open>
  C6, as stated: the optimal price of every product is the mean of the prices at which
  it was selected, divided by 100. With the same product twice on the shelf, an answer
  that selects the second entry, offered at 1200, is recorded at the price of the first
  entry with that id, 800: the product was selected once, at 1200, and the reported
  optimal price is 8. And a product whose id is 0 is selected at 800 without the
  selection being recorded (\<open>if (selectedProductId)\<close>): the reported optimal price is
  its list price divided by 100.
\<close>

theorem duplicate_product_price_counterexample:
  "selectedPrices [product1, product1] (Some 2) 1 replySecondOnly 1 = [1200]
   \<and> map optimalPrice (the (runSurvey [product1, product1] (Some 2) [()] replySecondOnly)) = [8, 8]
   \<and> selectedPrices [product0] (Some 2) 1 replyFirstOnly 0 = [800]
   \<and> map optimalPrice (the (runSurvey [product0] (Some 2) [()] replyFirstOnly)) = [10]"
proof -
  have run: "runSurvey [product1, product1] (Some 2) [()] replySecondOnly
     = Some [\<lparr>optimalPrice = 8, preferenceShare = 1\<rparr>, \<lparr>optimalPrice = 8, preferenceShare = 1\<rparr>]"
    by code_simp
  have sel: "selectedPrices [product1, product1] (Some 2) (Suc 0) replySecondOnly 1 = [1200]"
    by code_simp
  have run0: "runSurvey [product0] (Some 2) [()] replyFirstOnly
     = Some [\<lparr>optimalPrice = 10, preferenceShare = 1\<rparr>]"
    by code_simp
  have sel0: "selectedPrices [product0] (Some 2) (Suc 0) replyFirstOnly 0 = [800]"
    by code_simp
  show ?thesis by (simp add: run sel run0 sel0)
qed

text \<open>
  C6, amended. For products with pairwise distinct ids, none of them 0, every run
  returns its results, one for each product, and the optimal price of a product is the
  arithmetic mean of the prices at which it was selected, divided by 100, or its list
  price divided by 100 when it was never selected; the divisions are the source's, each
  giving a double.
\<close>

theorem optimalPrice_is_mean_of_selected_prices:
  assumes "distinct (map id_of productsData)" and "\<forall>p \<in> set productsData. id_of p \<noteq> 0"
  shows "\<exists>rs. runSurvey productsData configured personas reply = Some rs
    \<and> length rs = length productsData
    \<and> (\<forall>i < length productsData.
          optimalPrice (rs ! i) =
            (let prices = selectedPrices productsData configured (length personas) reply
                            (id_of (productsData ! i))
             in js_divide
                  (if prices = [] then of_int (listPrice (productsData ! i))
                   else js_divide (of_int (sum_list prices)) (of_nat (length prices))) 100))"
proof -
  from simulate_content[OF assms, of configured personas reply]
  obtain sim where sim: "simulate productsData configured personas reply = Some sim"
    and content: "\<And>p. p \<in> set productsData \<Longrightarrow> map_of sim (id_of p) =
        Some (length (selectedPrices productsData configured (length personas) reply (id_of p)),
              selectedPrices productsData configured (length personas) reply (id_of p))"
    by blast
  define res where "res p = the (productResult productsData sim p)" for p
  have pr: "productResult productsData sim p = Some (res p)" if "p \<in> set productsData" for p
    using content[OF that] by (simp add: res_def productResult_def Let_def)
  have run: "runSurvey productsData configured personas reply = Some (map res productsData)"
    by (simp add: runSurvey_def sim those_map_Some[OF pr])
  have "optimalPrice (res p) =
            (let prices = selectedPrices productsData configured (length personas) reply (id_of p)
             in js_divide
                  (if prices = [] then of_int (listPrice p)
                   else js_divide (of_int (sum_list prices)) (of_nat (length prices))) 100)"
    if "p \<in> set productsData" for p
    using content[OF that] by (simp add: res_def productResult_def Let_def)
  then show ?thesis using run by simp
qed

theorem optimalPrice_is_mean_of_selected_prices_witness:
  "\<exists>rs. runSurvey [product1, product2] (Some 2) [()] reply12 = Some rs
     \<and> length rs = 2
     \<and> selectedPrices [product1, product2] (Some 2) 1 reply12 2 = [700, 400, 700]
     \<and> optimalPrice (rs ! 1) = 6"
proof -
  have d: "distinct (map id_of [product1, product2])"
    by (simp add: product1_def product2_def)
  have nz: "\<forall>p \<in> set [product1, product2]. id_of p \<noteq> 0"
    by (simp add: product1_def product2_def)
  have sel: "selectedPrices [product1, product2] (Some 2) (Suc 0) reply12 2 = [700, 400, 700]"
    by code_simp
  have i2: "id_of product2 = 2" by (simp add: product2_def)
  from optimalPrice_is_mean_of_selected_prices [OF d nz, of "Some 2" "[()]" reply12]
  obtain rs where rs: "runSurvey [product1, product2] (Some 2) [()] reply12 = Some rs"
    and len: "length rs = length [product1, product2]"
    and each: "\<forall>i < length [product1, product2].
          optimalPrice (rs ! i) =
            (let prices = selectedPrices [product1, product2] (Some 2) (length [()]) reply12
                            (id_of ([product1, product2] ! i))
             in js_divide
                  (if prices = [] then of_int (listPrice ([product1, product2] ! i))
                   else js_divide (of_int (sum_list prices)) (of_nat (length prices))) 100)"
    by (elim exE conjE) (rule that)
  have q: "js_divide (js_divide 1800 3) 100 = 6"
    by code_simp
  from each have "optimalPrice (rs ! 1) = 6"
    by (simp add: i2 sel q)
  with rs len sel show ?thesis by (intro exI[of _ rs] conjI) simp_all
qed



end
